theory Spec2Isabelle
  imports Complex_Main "HOL-Library.AList" "HOL-Library.Sublist"
begin

section \<open>Python values\<close>

text \<open>
  The mutation engine of \<^verbatim>\<open>src/main.py\<close> (class \<^verbatim>\<open>JSONMutator\<close>) works on
  the values that \<^verbatim>\<open>json.load\<close> produces: \<^verbatim>\<open>None\<close>, booleans, unbounded
  integers, floats, strings, lists and dictionaries with string keys. A dictionary is an
  association list in insertion order, the order in which \<^verbatim>\<open>dict.items()\<close>
  visits it; a dictionary of Python has no key twice, which is \<open>distinct (map fst d)\<close>.

  A float is its exact real value or one of the three special values. Finite results
  of float arithmetic are kept exact: rounding to binary64, overflow of a finite result
  to infinity and the sign of zero are not modelled. Nothing below depends on the numeric
  value of a float result, only on whether an operation raises.
\<close>

datatype pyfloat = Finite real | PosInf | NegInf | NaN

datatype pyval =
    PNone
  | PBool bool
  | PInt int
  | PFloat pyfloat
  | PStr string
  | PList "pyval list"
  | PDict "(string \<times> pyval) list"

text \<open>The exceptions the engine can meet. Every raise of the source is an \<open>Inl\<close>.\<close>

datatype error = TypeError | AttributeError | KeyError | OverflowError | ZeroDivisionError

section \<open>The random source\<close>

text \<open>
  The source draws from the process-wide generator of module \<^verbatim>\<open>random\<close>. The model
  makes the generator an explicit tape of natural numbers, read from the left; each
  library call consumes one cell, and an exhausted tape reads 0. Every function that
  draws takes the tape and returns what is left of it, so two calls "with the same
  randomness" are two calls on the same tape.
\<close>

type_synonym rng = "nat list"

type_synonym 'a outcome = "(error + 'a) \<times> rng"

fun next_raw :: "rng \<Rightarrow> nat \<times> rng" where
  "next_raw [] = (0, [])"
| "next_raw (x # xs) = (x, xs)"

text \<open>\<^verbatim>\<open>random.randint(a, b)\<close>: an integer of \<open>[a, b]\<close>, for \<open>a \<le> b\<close>.\<close>

definition randint :: "int \<Rightarrow> int \<Rightarrow> rng \<Rightarrow> int \<times> rng" where
  "randint a b rng = (case next_raw rng of (x, r) \<Rightarrow> (a + int (x mod nat (b - a + 1)), r))"

text \<open>\<^verbatim>\<open>random.choice(seq)\<close> for a non-empty sequence: \<^verbatim>\<open>seq[randbelow(len(seq))]\<close>.\<close>

definition choice :: "'a list \<Rightarrow> rng \<Rightarrow> 'a \<times> rng" where
  "choice seq rng = (case next_raw rng of (x, r) \<Rightarrow> (seq ! (x mod length seq), r))"

text \<open>
  \<^verbatim>\<open>random.uniform(a, b)\<close> is \<^verbatim>\<open>a + (b - a) * random()\<close>, and
  \<^verbatim>\<open>random()\<close> is a multiple of \<open>2\<^sup>-\<^sup>5\<^sup>3\<close> in \<open>[0, 1)\<close>.
\<close>

definition random_unit :: "rng \<Rightarrow> real \<times> rng" where
  "random_unit rng = (case next_raw rng of (x, r) \<Rightarrow> (real (x mod 2 ^ 53) / 2 ^ 53, r))"

definition uniform :: "real \<Rightarrow> real \<Rightarrow> rng \<Rightarrow> pyfloat \<times> rng" where
  "uniform a b rng = (case random_unit rng of (u, r) \<Rightarrow> (Finite (a + (b - a) * u), r))"

section \<open>Python operators on dynamically typed operands\<close>

text \<open>
  The strategies apply \<^verbatim>\<open>+ - * // /\<close>, \<^verbatim>\<open>.upper()\<close>, \<^verbatim>\<open>.lower()\<close> and
  \<^verbatim>\<open>[::-1]\<close> to whatever value the sample holds. The right operand is always produced
  by the strategy itself (a string literal, an integer draw, a float draw), so each
  operator is modelled for an arbitrary left operand and a right operand of that type.
  \<^verbatim>\<open>bool\<close> is a subclass of \<^verbatim>\<open>int\<close>: \<^verbatim>\<open>True\<close> counts as 1.
\<close>

definition int_of_bool :: "bool \<Rightarrow> int" where
  "int_of_bool b = (if b then 1 else 0)"

text \<open>
  Converting an integer to a float raises \<^verbatim>\<open>OverflowError\<close> once the integer rounds
  past the largest binary64 number, \<open>2\<^sup>1\<^sup>0\<^sup>2\<^sup>4 - 2\<^sup>9\<^sup>7\<^sup>1\<close>.
\<close>

definition float_of_int :: "int \<Rightarrow> error + pyfloat" where
  "float_of_int i =
     (if \<bar>i\<bar> < 2 ^ 1024 - 2 ^ 970 then Inr (Finite (of_int i)) else Inl OverflowError)"

fun f_neg :: "pyfloat \<Rightarrow> pyfloat" where
  "f_neg (Finite a) = Finite (- a)"
| "f_neg PosInf = NegInf"
| "f_neg NegInf = PosInf"
| "f_neg NaN = NaN"

fun f_add :: "pyfloat \<Rightarrow> pyfloat \<Rightarrow> pyfloat" where
  "f_add NaN _ = NaN"
| "f_add _ NaN = NaN"
| "f_add (Finite a) (Finite b) = Finite (a + b)"
| "f_add PosInf NegInf = NaN"
| "f_add NegInf PosInf = NaN"
| "f_add PosInf _ = PosInf"
| "f_add NegInf _ = NegInf"
| "f_add (Finite a) y = y"

definition f_sub :: "pyfloat \<Rightarrow> pyfloat \<Rightarrow> pyfloat" where
  "f_sub x y = f_add x (f_neg y)"

fun f_mul :: "pyfloat \<Rightarrow> pyfloat \<Rightarrow> pyfloat" where
  "f_mul NaN _ = NaN"
| "f_mul _ NaN = NaN"
| "f_mul (Finite a) (Finite b) = Finite (a * b)"
| "f_mul (Finite a) y = (if a = 0 then NaN else if 0 < a then y else f_neg y)"
| "f_mul x (Finite b) = (if b = 0 then NaN else if 0 < b then x else f_neg x)"
| "f_mul PosInf y = y"
| "f_mul NegInf y = f_neg y"

text \<open>Float division by a divisor that is not zero (zero is checked by the caller).\<close>

fun f_div :: "pyfloat \<Rightarrow> pyfloat \<Rightarrow> pyfloat" where
  "f_div NaN _ = NaN"
| "f_div _ NaN = NaN"
| "f_div (Finite a) (Finite b) = Finite (a / b)"
| "f_div (Finite a) y = Finite 0"
| "f_div x (Finite b) = (if 0 < b then x else f_neg x)"
| "f_div x y = NaN"

text \<open>\<^verbatim>\<open>x + "literal"\<close>: concatenation for a string, \<^verbatim>\<open>TypeError\<close> otherwise.\<close>

fun py_add_str :: "pyval \<Rightarrow> string \<Rightarrow> error + pyval" where
  "py_add_str (PStr s) t = Inr (PStr (s @ t))"
| "py_add_str _ t = Inl TypeError"

text \<open>\<^verbatim>\<open>x + k\<close>, \<^verbatim>\<open>x - k\<close>, \<^verbatim>\<open>x * k\<close>, \<^verbatim>\<open>x // k\<close> for an integer \<open>k\<close>.\<close>

fun py_add_int :: "pyval \<Rightarrow> int \<Rightarrow> error + pyval" where
  "py_add_int (PInt i) k = Inr (PInt (i + k))"
| "py_add_int (PBool b) k = Inr (PInt (int_of_bool b + k))"
| "py_add_int (PFloat f) k =
     (case float_of_int k of Inl e \<Rightarrow> Inl e | Inr g \<Rightarrow> Inr (PFloat (f_add f g)))"
| "py_add_int _ k = Inl TypeError"

fun py_sub_int :: "pyval \<Rightarrow> int \<Rightarrow> error + pyval" where
  "py_sub_int (PInt i) k = Inr (PInt (i - k))"
| "py_sub_int (PBool b) k = Inr (PInt (int_of_bool b - k))"
| "py_sub_int (PFloat f) k =
     (case float_of_int k of Inl e \<Rightarrow> Inl e | Inr g \<Rightarrow> Inr (PFloat (f_sub f g)))"
| "py_sub_int _ k = Inl TypeError"

fun py_mul_int :: "pyval \<Rightarrow> int \<Rightarrow> error + pyval" where
  "py_mul_int (PInt i) k = Inr (PInt (i * k))"
| "py_mul_int (PBool b) k = Inr (PInt (int_of_bool b * k))"
| "py_mul_int (PFloat f) k =
     (case float_of_int k of Inl e \<Rightarrow> Inl e | Inr g \<Rightarrow> Inr (PFloat (f_mul f g)))"
| "py_mul_int (PStr s) k = Inr (PStr (concat (replicate (nat k) s)))"
| "py_mul_int (PList xs) k = Inr (PList (concat (replicate (nat k) xs)))"
| "py_mul_int _ k = Inl TypeError"

text \<open>
  Floor division. On integers HOL's \<open>div\<close> rounds towards minus infinity, as
  \<^verbatim>\<open>//\<close> does. On a float the quotient by a non-zero integer is the floor of the
  exact quotient; an infinite or NaN dividend gives NaN.
\<close>

fun f_floordiv_int :: "pyfloat \<Rightarrow> int \<Rightarrow> pyfloat" where
  "f_floordiv_int (Finite a) k = Finite (of_int \<lfloor>a / of_int k\<rfloor>)"
| "f_floordiv_int _ k = NaN"

fun py_floordiv_int :: "pyval \<Rightarrow> int \<Rightarrow> error + pyval" where
  "py_floordiv_int (PInt i) k =
     (if k = 0 then Inl ZeroDivisionError else Inr (PInt (i div k)))"
| "py_floordiv_int (PBool b) k =
     (if k = 0 then Inl ZeroDivisionError else Inr (PInt (int_of_bool b div k)))"
| "py_floordiv_int (PFloat f) k =
     (if k = 0 then Inl ZeroDivisionError else Inr (PFloat (f_floordiv_int f k)))"
| "py_floordiv_int _ k = Inl TypeError"

text \<open>
  \<^verbatim>\<open>x + u\<close>, \<^verbatim>\<open>x - u\<close>, \<^verbatim>\<open>x * u\<close>, \<^verbatim>\<open>x / u\<close> for a float \<open>u\<close>: an integer
  left operand is converted to a float first, which is where \<^verbatim>\<open>OverflowError\<close>
  comes from; a sequence cannot be multiplied by a float.
\<close>

fun to_float :: "pyval \<Rightarrow> error + pyfloat" where
  "to_float (PFloat f) = Inr f"
| "to_float (PInt i) = float_of_int i"
| "to_float (PBool b) = float_of_int (int_of_bool b)"
| "to_float _ = Inl TypeError"

definition py_add_float :: "pyval \<Rightarrow> pyfloat \<Rightarrow> error + pyval" where
  "py_add_float x u = (case to_float x of Inl e \<Rightarrow> Inl e | Inr f \<Rightarrow> Inr (PFloat (f_add f u)))"

definition py_sub_float :: "pyval \<Rightarrow> pyfloat \<Rightarrow> error + pyval" where
  "py_sub_float x u = (case to_float x of Inl e \<Rightarrow> Inl e | Inr f \<Rightarrow> Inr (PFloat (f_sub f u)))"

definition py_mul_float :: "pyval \<Rightarrow> pyfloat \<Rightarrow> error + pyval" where
  "py_mul_float x u = (case to_float x of Inl e \<Rightarrow> Inl e | Inr f \<Rightarrow> Inr (PFloat (f_mul f u)))"

definition py_truediv_float :: "pyval \<Rightarrow> pyfloat \<Rightarrow> error + pyval" where
  "py_truediv_float x u =
     (case to_float x of
        Inl e \<Rightarrow> Inl e
      | Inr f \<Rightarrow> if u = Finite 0 then Inl ZeroDivisionError else Inr (PFloat (f_div f u)))"

text \<open>
  \<^verbatim>\<open>s.upper()\<close> and \<^verbatim>\<open>s.lower()\<close> exist on strings only; any other value has no
  such attribute. The case conversion is modelled on the ASCII letters; Python applies
  the Unicode case tables, and nothing below depends on which characters change.
\<close>

definition ascii_upper :: "char \<Rightarrow> char" where
  "ascii_upper c =
     (if 97 \<le> (of_char c :: nat) \<and> (of_char c :: nat) \<le> 122
      then char_of ((of_char c :: nat) - 32) else c)"

definition ascii_lower :: "char \<Rightarrow> char" where
  "ascii_lower c =
     (if 65 \<le> (of_char c :: nat) \<and> (of_char c :: nat) \<le> 90
      then char_of ((of_char c :: nat) + 32) else c)"

fun py_upper :: "pyval \<Rightarrow> error + pyval" where
  "py_upper (PStr s) = Inr (PStr (map ascii_upper s))"
| "py_upper _ = Inl AttributeError"

fun py_lower :: "pyval \<Rightarrow> error + pyval" where
  "py_lower (PStr s) = Inr (PStr (map ascii_lower s))"
| "py_lower _ = Inl AttributeError"

text \<open>
  \<^verbatim>\<open>x[::-1]\<close> reverses a string or a list. A dictionary looks the slice up as a key
  and fails (\<^verbatim>\<open>TypeError\<close> up to Python 3.11, where a slice is unhashable;
  \<^verbatim>\<open>KeyError\<close> from 3.12); every other value is not subscriptable.
\<close>

fun py_reversed_slice :: "pyval \<Rightarrow> error + pyval" where
  "py_reversed_slice (PStr s) = Inr (PStr (rev s))"
| "py_reversed_slice (PList xs) = Inr (PList (rev xs))"
| "py_reversed_slice _ = Inl TypeError"

text \<open>
  \<^verbatim>\<open>key in container\<close> for a string key: key membership in a dictionary, element
  membership in a list, substring test in a string, \<^verbatim>\<open>TypeError\<close> for a value that
  is not iterable. \<^verbatim>\<open>container[key]\<close> for a string key succeeds on a dictionary
  holding the key only.
\<close>

fun py_contains :: "pyval \<Rightarrow> string \<Rightarrow> error + bool" where
  "py_contains (PDict d) k = Inr (map_of d k \<noteq> None)"
| "py_contains (PList xs) k = Inr (PStr k \<in> set xs)"
| "py_contains (PStr s) k = Inr (sublist k s)"
| "py_contains _ k = Inl TypeError"

fun py_getitem :: "pyval \<Rightarrow> string \<Rightarrow> error + pyval" where
  "py_getitem (PDict d) k = (case map_of d k of Some v \<Rightarrow> Inr v | None \<Rightarrow> Inl KeyError)"
| "py_getitem _ k = Inl TypeError"

section \<open>The mutation strategies\<close>

text \<open>
  Each of \<^verbatim>\<open>_mutate_string\<close>, \<^verbatim>\<open>_mutate_integer\<close> and \<^verbatim>\<open>_mutate_number\<close>
  builds a list of lambdas, picks one with \<^verbatim>\<open>random.choice\<close> and applies it to the
  sample value, whatever its type. A strategy first makes its own draws, then applies the
  operator, so the tape it returns is the same whether the operator raises or not.
\<close>

text \<open>The last string strategy joins \<open>n\<close> letters, each picked by \<^verbatim>\<open>random.choice\<close>.\<close>

fun random_letters :: "nat \<Rightarrow> rng \<Rightarrow> string \<times> rng" where
  "random_letters 0 rng = ([], rng)"
| "random_letters (Suc n) rng =
     (case choice ''abcdefghijklmnopqrstuvwxyz'' rng of
        (c, r) \<Rightarrow> (case random_letters n r of (cs, r') \<Rightarrow> (c # cs, r')))"

definition xss_payload :: string where
  "xss_payload = ''<script>alert('' @ [CHR 0x27] @ ''XSS'' @ [CHR 0x27] @ '')</script>''"

definition sql_payload :: string where
  "sql_payload = [CHR 0x27] @ '' OR '' @ [CHR 0x27] @ ''1'' @ [CHR 0x27] @ ''=''
                 @ [CHR 0x27] @ ''1''"

definition string_strategies :: "(pyval \<Rightarrow> rng \<Rightarrow> pyval outcome) list" where
  "string_strategies =
     [\<lambda>s rng. (case randint 1 5 rng of
                 (k, r) \<Rightarrow> (py_add_str s (concat (replicate (nat k) ''!'')), r)),
      \<lambda>s rng. (py_upper s, rng),
      \<lambda>s rng. (py_lower s, rng),
      \<lambda>s rng. (py_reversed_slice s, rng),
      \<lambda>s rng. (py_add_str s xss_payload, rng),
      \<lambda>s rng. (py_add_str s sql_payload, rng),
      \<lambda>s rng. (py_add_str s [CHR 0x00], rng),
      \<lambda>s rng. (case randint 5 15 rng of
                 (n, r) \<Rightarrow> (case random_letters (nat n) r of
                              (cs, r') \<Rightarrow> (Inr (PStr cs), r')))]"

definition mutate_string :: "pyval \<Rightarrow> rng \<Rightarrow> pyval outcome" where
  "mutate_string data rng =
     (case choice string_strategies rng of (strategy, r) \<Rightarrow> strategy data r)"

text \<open>
  The integer strategies. The division strategy evaluates its guard
  \<^verbatim>\<open>random.randint(1, 3) != 0\<close> first and draws the divisor afterwards, a second,
  independent draw. \<^verbatim>\<open>_mutate_integer\<close> catches \<^verbatim>\<open>OverflowError\<close> and returns
  the sample unchanged.
\<close>

definition integer_strategies :: "(pyval \<Rightarrow> rng \<Rightarrow> pyval outcome) list" where
  "integer_strategies =
     [\<lambda>i rng. (case randint 1 10 rng of (k, r) \<Rightarrow> (py_add_int i k, r)),
      \<lambda>i rng. (case randint 1 10 rng of (k, r) \<Rightarrow> (py_sub_int i k, r)),
      \<lambda>i rng. (case randint 1 3 rng of (k, r) \<Rightarrow> (py_mul_int i k, r)),
      \<lambda>i rng. (case randint 1 3 rng of
                 (g, r) \<Rightarrow> if g \<noteq> 0
                           then (case randint 1 3 r of (k, r') \<Rightarrow> (py_floordiv_int i k, r'))
                           else (Inr i, r)),
      \<lambda>i rng. (Inr (PInt (2 ^ 31 - 1)), rng),
      \<lambda>i rng. (Inr (PInt (- (2 ^ 31))), rng),
      \<lambda>i rng. (Inr (PInt 0), rng)]"

definition mutate_integer :: "pyval \<Rightarrow> rng \<Rightarrow> pyval outcome" where
  "mutate_integer data rng =
     (case choice integer_strategies rng of
        (strategy, r) \<Rightarrow>
          (case strategy data r of
             (Inl OverflowError, r') \<Rightarrow> (Inr data, r')
           | res \<Rightarrow> res))"

text \<open>
  The number strategies, with the same shape of guard in the division strategy.
  \<^verbatim>\<open>_mutate_number\<close> catches \<^verbatim>\<open>ZeroDivisionError\<close> only.
\<close>

definition number_strategies :: "(pyval \<Rightarrow> rng \<Rightarrow> pyval outcome) list" where
  "number_strategies =
     [\<lambda>f rng. (case uniform 0.1 1.0 rng of (u, r) \<Rightarrow> (py_add_float f u, r)),
      \<lambda>f rng. (case uniform 0.1 1.0 rng of (u, r) \<Rightarrow> (py_sub_float f u, r)),
      \<lambda>f rng. (case uniform 1.1 2.0 rng of (u, r) \<Rightarrow> (py_mul_float f u, r)),
      \<lambda>f rng. (case uniform 1.1 2.0 rng of
                 (g, r) \<Rightarrow> if g \<noteq> Finite 0
                           then (case uniform 1.1 2.0 r of (u, r') \<Rightarrow> (py_truediv_float f u, r'))
                           else (Inr f, r)),
      \<lambda>f rng. (Inr (PFloat PosInf), rng),
      \<lambda>f rng. (Inr (PFloat NegInf), rng),
      \<lambda>f rng. (Inr (PFloat NaN), rng)]"

definition mutate_number :: "pyval \<Rightarrow> rng \<Rightarrow> pyval outcome" where
  "mutate_number data rng =
     (case choice number_strategies rng of
        (strategy, r) \<Rightarrow>
          (case strategy data r of
             (Inl ZeroDivisionError, r') \<Rightarrow> (Inr data, r')
           | res \<Rightarrow> res))"

text \<open>\<^verbatim>\<open>_mutate_boolean\<close> takes no argument: \<^verbatim>\<open>not random.choice([True, False])\<close>.\<close>

definition mutate_boolean :: "rng \<Rightarrow> pyval outcome" where
  "mutate_boolean rng = (case choice [True, False] rng of (b, r) \<Rightarrow> (Inr (PBool (\<not> b)), r))"

section \<open>The traversal\<close>

text \<open>
  \<^verbatim>\<open>_mutate_recursive(schema, data)\<close> with its three loops. \<open>array_loop\<close> is the
  loop of lines 70 to 73 with its accumulator \<^verbatim>\<open>mutated_array\<close>; \<open>object_loop\<close> is
  the loop of lines 83 to 88, where \<open>props\<close> is the value of \<^verbatim>\<open>schema["properties"]\<close>
  (any value: the source does not check that it is a dictionary); \<open>wildcard_loop\<close> is
  the loop of lines 100 to 101 and of lines 109 to 110, which recurse with the empty
  schema. An assignment \<^verbatim>\<open>mutated_object[key] = v\<close> is \<open>AList.update\<close>: it replaces
  the value of a key that is there and appends a new key at the end. An exception in a
  recursive call leaves each loop at once.

  When the schema has type \<^verbatim>\<open>object\<close>, the sample is a dictionary and the schema has
  no \<^verbatim>\<open>properties\<close>, no \<^verbatim>\<open>return\<close> is reached (the one of line 89 is inside the
  \<^verbatim>\<open>if\<close> of line 82), and the function returns \<^verbatim>\<open>None\<close>.
\<close>

function (sequential) mutate_recursive :: "pyval \<Rightarrow> pyval \<Rightarrow> rng \<Rightarrow> pyval outcome"
  and array_loop :: "pyval \<Rightarrow> pyval list \<Rightarrow> pyval list \<Rightarrow> rng \<Rightarrow> pyval outcome"
  and object_loop ::
    "pyval \<Rightarrow> (string \<times> pyval) list \<Rightarrow> (string \<times> pyval) list \<Rightarrow> rng \<Rightarrow> pyval outcome"
  and wildcard_loop ::
    "(string \<times> pyval) list \<Rightarrow> (string \<times> pyval) list \<Rightarrow> rng \<Rightarrow> pyval outcome"
where
  "mutate_recursive schema data rng =
     (case schema of
        PDict sch \<Rightarrow>
          (case map_of sch ''type'' of
             Some data_type \<Rightarrow>
               if data_type = PStr ''string'' then mutate_string data rng
               else if data_type = PStr ''integer'' then mutate_integer data rng
               else if data_type = PStr ''number'' then mutate_number data rng
               else if data_type = PStr ''boolean'' then mutate_boolean rng
               else if data_type = PStr ''null'' then (Inr PNone, rng)
               else if data_type = PStr ''array'' then
                 (case map_of sch ''items'' of
                    Some items \<Rightarrow>
                      (case data of
                         PList xs \<Rightarrow> array_loop items xs [] rng
                       | _ \<Rightarrow> (Inr (PList []), rng))
                  | None \<Rightarrow> (Inr (PList []), rng))
               else if data_type = PStr ''object'' then
                 (case data of
                    PDict d \<Rightarrow>
                      (case map_of sch ''properties'' of
                         Some props \<Rightarrow> object_loop props d [] rng
                       | None \<Rightarrow> (Inr PNone, rng))
                  | _ \<Rightarrow> (Inr (PDict []), rng))
               else (Inr data, rng)
           | None \<Rightarrow>
               (case data of
                  PDict d \<Rightarrow> wildcard_loop d [] rng
                | _ \<Rightarrow> (Inr data, rng)))
      | _ \<Rightarrow>
          (case data of
             PDict d \<Rightarrow> wildcard_loop d [] rng
           | _ \<Rightarrow> (Inr data, rng)))"
| "array_loop items [] mutated_array rng = (Inr (PList mutated_array), rng)"
| "array_loop items (item # rest) mutated_array rng =
     (case mutate_recursive items item rng of
        (Inl e, r) \<Rightarrow> (Inl e, r)
      | (Inr v, r) \<Rightarrow> array_loop items rest (mutated_array @ [v]) r)"
| "object_loop props [] mutated_object rng = (Inr (PDict mutated_object), rng)"
| "object_loop props ((k, v) # rest) mutated_object rng =
     (case py_contains props k of
        Inl e \<Rightarrow> (Inl e, rng)
      | Inr True \<Rightarrow>
          (case py_getitem props k of
             Inl e \<Rightarrow> (Inl e, rng)
           | Inr sub \<Rightarrow>
               (case mutate_recursive sub v rng of
                  (Inl e, r) \<Rightarrow> (Inl e, r)
                | (Inr v', r) \<Rightarrow> object_loop props rest (AList.update k v' mutated_object) r))
      | Inr False \<Rightarrow> object_loop props rest (AList.update k v mutated_object) rng)"
| "wildcard_loop [] mutated_object rng = (Inr (PDict mutated_object), rng)"
| "wildcard_loop ((k, v) # rest) mutated_object rng =
     (case mutate_recursive (PDict []) v rng of
        (Inl e, r) \<Rightarrow> (Inl e, r)
      | (Inr v', r) \<Rightarrow> wildcard_loop rest (AList.update k v' mutated_object) r)"
  by pat_completeness auto

text \<open>
  Every recursive call is on a part of the sample, so the traversal terminates: its depth
  is the depth of the sample, whatever the schema holds.
\<close>

termination
  apply (relation "measure (\<lambda>x. case x of
      Inl (Inl (s, d, r)) \<Rightarrow> 2 * size d
    | Inl (Inr (i, xs, acc, r)) \<Rightarrow> 2 * size_list size xs + 1
    | Inr (Inl (p, kvs, acc, r)) \<Rightarrow> 2 * size_list (size_prod (\<lambda>_. 0) size) kvs + 1
    | Inr (Inr (kvs, acc, r)) \<Rightarrow> 2 * size_list (size_prod (\<lambda>_. 0) size) kvs + 1)")
  apply simp_all
  done

text \<open>
  The class holds the schema and the sample; \<^verbatim>\<open>mutate(iterations)\<close> appends one
  traversal per iteration. \<^verbatim>\<open>range\<close> of a negative number is empty.
\<close>

record JSONMutator =
  schema :: pyval
  sample :: pyval

fun mutate_loop :: "JSONMutator \<Rightarrow> nat \<Rightarrow> pyval list \<Rightarrow> rng \<Rightarrow> (pyval list) outcome" where
  "mutate_loop self 0 mutated_payloads rng = (Inr mutated_payloads, rng)"
| "mutate_loop self (Suc n) mutated_payloads rng =
     (case mutate_recursive (schema self) (sample self) rng of
        (Inl e, r) \<Rightarrow> (Inl e, r)
      | (Inr v, r) \<Rightarrow> mutate_loop self n (mutated_payloads @ [v]) r)"

definition mutate :: "JSONMutator \<Rightarrow> int \<Rightarrow> rng \<Rightarrow> (pyval list) outcome" where
  "mutate self iterations rng = mutate_loop self (nat iterations) [] rng"

section \<open>Conforming pairs and the sequential maps\<close>

text \<open>
  The strategies carry no type guard, so a schema node of type \<^verbatim>\<open>string\<close>,
  \<^verbatim>\<open>integer\<close> or \<^verbatim>\<open>number\<close> can raise on a sample of another type. A pair
  \<open>conforms\<close> when this cannot happen: a string meets a \<^verbatim>\<open>string\<close> node; an
  integer, a boolean or a float meets an \<^verbatim>\<open>integer\<close> node; a float, a boolean or
  an integer that converts to a float meets a \<^verbatim>\<open>number\<close> node; the elements of a
  list conform to \<^verbatim>\<open>items\<close>; the fields of a dictionary conform to their
  sub-schemas, and \<^verbatim>\<open>properties\<close> is a dictionary whenever the sample has a field to
  look up. Every other combination conforms, in particular every mismatch of container
  shapes.
\<close>

fun is_string :: "pyval \<Rightarrow> bool" where
  "is_string (PStr s) = True"
| "is_string _ = False"

fun is_list :: "pyval \<Rightarrow> bool" where
  "is_list (PList xs) = True"
| "is_list _ = False"

fun is_dict :: "pyval \<Rightarrow> bool" where
  "is_dict (PDict d) = True"
| "is_dict _ = False"

fun is_numeric :: "pyval \<Rightarrow> bool" where
  "is_numeric (PInt i) = True"
| "is_numeric (PBool b) = True"
| "is_numeric (PFloat f) = True"
| "is_numeric _ = False"

fun fits_float :: "pyval \<Rightarrow> bool" where
  "fits_float (PInt i) = (\<bar>i\<bar> < 2 ^ 1024 - 2 ^ 970)"
| "fits_float (PBool b) = True"
| "fits_float (PFloat f) = True"
| "fits_float _ = False"

function (sequential) conforms :: "pyval \<Rightarrow> pyval \<Rightarrow> bool" where
  "conforms node data =
     (case node of
        PDict sch \<Rightarrow>
          (case map_of sch ''type'' of
             Some data_type \<Rightarrow>
               if data_type = PStr ''string'' then is_string data
               else if data_type = PStr ''integer'' then is_numeric data
               else if data_type = PStr ''number'' then fits_float data
               else if data_type = PStr ''array'' then
                 (case map_of sch ''items'' of
                    Some items \<Rightarrow>
                      (case data of
                         PList xs \<Rightarrow> list_all (\<lambda>x. conforms items x) xs
                       | _ \<Rightarrow> True)
                  | None \<Rightarrow> True)
               else if data_type = PStr ''object'' then
                 (case data of
                    PDict d \<Rightarrow>
                      (case map_of sch ''properties'' of
                         Some (PDict props) \<Rightarrow>
                           list_all (\<lambda>kv. case map_of props (fst kv) of
                                             Some sub \<Rightarrow> conforms sub (snd kv)
                                           | None \<Rightarrow> True) d
                       | Some _ \<Rightarrow> d = []
                       | None \<Rightarrow> True)
                  | _ \<Rightarrow> True)
               else True
           | None \<Rightarrow> True)
      | _ \<Rightarrow> True)"
  by pat_completeness auto

termination conforms
  apply (relation "measure (\<lambda>(s, d). size d)")
    apply simp
   apply (simp add: less_Suc_eq_le size_list_estimation')
  apply (clarsimp simp: less_Suc_eq_le)
  apply (rule size_list_estimation', assumption)
  apply simp
  done

definition fields_conform :: "pyval \<Rightarrow> (string \<times> pyval) list \<Rightarrow> bool" where
  "fields_conform props d =
     (case props of
        PDict p \<Rightarrow> list_all (\<lambda>kv. case map_of p (fst kv) of
                                    Some sub \<Rightarrow> conforms sub (snd kv)
                                  | None \<Rightarrow> True) d
      | _ \<Rightarrow> d = [])"

text \<open>
  What the specification says of an array with an item schema and of an object with
  properties, written as maps that thread the random tape from left to right and stop at
  the first exception: element \<open>i\<close> of the result is the mutation of element \<open>i\<close>
  under \<^verbatim>\<open>items\<close>; a field whose key is declared in \<^verbatim>\<open>properties\<close> is
  mutated under its sub-schema and any other field is copied.
\<close>

fun mutate_elements :: "pyval \<Rightarrow> pyval list \<Rightarrow> rng \<Rightarrow> (pyval list) outcome" where
  "mutate_elements items [] rng = (Inr [], rng)"
| "mutate_elements items (x # xs) rng =
     (case mutate_recursive items x rng of
        (Inl e, r) \<Rightarrow> (Inl e, r)
      | (Inr y, r) \<Rightarrow>
          (case mutate_elements items xs r of
             (Inl e, r') \<Rightarrow> (Inl e, r')
           | (Inr ys, r') \<Rightarrow> (Inr (y # ys), r')))"

fun mutate_fields ::
  "(string \<times> pyval) list \<Rightarrow> (string \<times> pyval) list \<Rightarrow> rng \<Rightarrow> ((string \<times> pyval) list) outcome"
where
  "mutate_fields props [] rng = (Inr [], rng)"
| "mutate_fields props ((k, v) # rest) rng =
     (case (case map_of props k of
              Some sub \<Rightarrow> mutate_recursive sub v rng
            | None \<Rightarrow> (Inr v, rng)) of
        (Inl e, r) \<Rightarrow> (Inl e, r)
      | (Inr v', r) \<Rightarrow>
          (case mutate_fields props rest r of
             (Inl e, r') \<Rightarrow> (Inl e, r')
           | (Inr out, r') \<Rightarrow> (Inr ((k, v') # out), r')))"

section \<open>The random source and the leaves\<close>

declare conforms.simps [simp del]

lemma choice_mem: "seq \<noteq> [] \<Longrightarrow> fst (choice seq rng) \<in> set seq"
  by (simp add: choice_def split: prod.splits)

lemma choice_cases:
  assumes "seq \<noteq> []"
  obtains f r where "choice seq rng = (f, r)" and "f \<in> set seq"
  using choice_mem [OF assms, of rng] by (cases "choice seq rng") auto

lemma randint_range:
  assumes "a \<le> b" and "randint a b rng = (k, r)"
  shows "a \<le> k \<and> k \<le> b"
proof -
  obtain x r' where x: "next_raw rng = (x, r')" by (cases "next_raw rng")
  have pos: "0 < nat (b - a + 1)" using assms(1) by simp
  have "x mod nat (b - a + 1) < nat (b - a + 1)" using pos by (rule mod_less_divisor)
  then have "int (x mod nat (b - a + 1)) < b - a + 1" using assms(1) by linarith
  moreover have "k = a + int (x mod nat (b - a + 1))"
    using assms(2) x by (simp add: randint_def)
  ultimately show ?thesis by simp
qed

lemma random_unit_range:
  assumes "random_unit rng = (q, r)"
  shows "0 \<le> q \<and> q < 1"
proof -
  obtain x r' where x: "next_raw rng = (x, r')" by (cases "next_raw rng")
  have q: "q = real (x mod 2 ^ 53) / 2 ^ 53" using assms x by (simp add: random_unit_def)
  have "x mod 2 ^ 53 < 2 ^ 53" by simp
  then have "real (x mod 2 ^ 53) < real (2 ^ 53)" by (simp only: of_nat_less_iff)
  then have "real (x mod 2 ^ 53) < 2 ^ 53" by simp
  then show ?thesis unfolding q by simp
qed

lemma uniform_range:
  assumes "a < b" and "uniform a b rng = (u, r)"
  shows "\<exists>x. u = Finite x \<and> a \<le> x \<and> x < b"
proof -
  obtain q r' where q: "random_unit rng = (q, r')" by (cases "random_unit rng")
  have rg: "0 \<le> q \<and> q < 1" using q by (rule random_unit_range)
  have u: "u = Finite (a + (b - a) * q)" using assms(2) q by (simp add: uniform_def)
  have "0 \<le> (b - a) * q" using rg assms(1) by simp
  moreover have "(b - a) * q < (b - a) * 1"
    using rg assms(1) by (intro mult_strict_left_mono) simp_all
  ultimately show ?thesis using u by simp
qed

lemma uniform_nonzero: "uniform (11 / 10) 2 rng = (Finite 0, r) \<Longrightarrow> False"
  using uniform_range [of "11 / 10" 2 rng "Finite 0" r] by simp

lemma float_of_int_small: "\<bar>k\<bar> \<le> 10 \<Longrightarrow> float_of_int k = Inr (Finite (of_int k))"
proof -
  assume "\<bar>k\<bar> \<le> 10"
  moreover have "(10::int) < 2 ^ 1024 - 2 ^ 970" by simp
  ultimately have "\<bar>k\<bar> < 2 ^ 1024 - 2 ^ 970" by linarith
  then show ?thesis by (simp add: float_of_int_def)
qed

lemma string_strategies_closed:
  "\<forall>strategy \<in> set string_strategies. \<exists>t r. strategy (PStr s) rng = (Inr (PStr t), r)"
  by (simp add: string_strategies_def split: prod.splits)

lemma mutate_string_closed: "\<exists>t r. mutate_string (PStr s) rng = (Inr (PStr t), r)"
proof -
  have ne: "string_strategies \<noteq> []" by (simp add: string_strategies_def)
  obtain f r where c: "choice string_strategies rng = (f, r)" and m: "f \<in> set string_strategies"
    using ne by (rule choice_cases)
  from string_strategies_closed m have "\<exists>t r'. f (PStr s) r = (Inr (PStr t), r')" by blast
  then show ?thesis using c by (simp add: mutate_string_def)
qed

lemma is_string_iff: "is_string data \<longleftrightarrow> (\<exists>s. data = PStr s)"
  by (cases data) simp_all

lemma mutate_string_safe: "is_string data \<Longrightarrow> \<exists>v r. mutate_string data rng = (Inr v, r)"
  using mutate_string_closed by (auto simp: is_string_iff) blast

lemma integer_strategies_safe:
  assumes "is_numeric data"
  shows "\<forall>strategy \<in> set integer_strategies. \<exists>v r. strategy data rng = (Inr v, r)"
proof -
  have k10: "\<And>k r g. randint 1 10 g = (k, r) \<Longrightarrow> float_of_int k = Inr (Finite (of_int k))"
    using randint_range [of 1 10] by (intro float_of_int_small) fastforce
  have k3: "\<And>k r g. randint 1 3 g = (k, r) \<Longrightarrow> float_of_int k = Inr (Finite (of_int k)) \<and> k \<noteq> 0"
    using randint_range [of 1 3] by (fastforce intro: float_of_int_small)
  show ?thesis
    using assms
    by (cases data)
      (auto simp: integer_strategies_def f_sub_def k10 k3 split: prod.splits dest: k10 k3)
qed

lemma mutate_integer_safe:
  assumes "is_numeric data"
  shows "\<exists>v r. mutate_integer data rng = (Inr v, r)"
proof -
  have ne: "integer_strategies \<noteq> []" by (simp add: integer_strategies_def)
  obtain f r where c: "choice integer_strategies rng = (f, r)" and m: "f \<in> set integer_strategies"
    using ne by (rule choice_cases)
  from integer_strategies_safe [OF assms] m obtain v r' where "f data r = (Inr v, r')" by blast
  then show ?thesis using c by (simp add: mutate_integer_def)
qed

lemma to_float_fits: "fits_float data \<Longrightarrow> \<exists>f. to_float data = Inr f"
  by (cases data) (simp_all add: float_of_int_def int_of_bool_def)

lemma number_strategies_safe:
  assumes "fits_float data"
  shows "\<forall>strategy \<in> set number_strategies. \<exists>v r. strategy data rng = (Inr v, r)"
proof -
  from to_float_fits [OF assms] obtain f where f: "to_float data = Inr f" ..
  show ?thesis
    using f
    by (auto simp: number_strategies_def py_add_float_def py_sub_float_def py_mul_float_def
          py_truediv_float_def split: prod.splits dest: uniform_nonzero)
qed

lemma mutate_number_safe:
  assumes "fits_float data"
  shows "\<exists>v r. mutate_number data rng = (Inr v, r)"
proof -
  have ne: "number_strategies \<noteq> []" by (simp add: number_strategies_def)
  obtain f r where c: "choice number_strategies rng = (f, r)" and m: "f \<in> set number_strategies"
    using ne by (rule choice_cases)
  from number_strategies_safe [OF assms] m obtain v r' where "f data r = (Inr v, r')" by blast
  then show ?thesis using c by (simp add: mutate_number_def)
qed

lemma mutate_boolean_bool: "\<exists>b r. mutate_boolean rng = (Inr (PBool b), r)"
  by (simp add: mutate_boolean_def split: prod.splits)

section \<open>Totality on conforming pairs\<close>

text \<open>
  By induction along the calls of the traversal: a conforming pair returns a value on
  every tape, each loop returns when the elements it visits conform, and the loop that
  recurses with the empty schema always returns.
\<close>

lemma total_aux:
  shows "conforms node data \<Longrightarrow> \<exists>v r. mutate_recursive node data rng = (Inr v, r)"
    and "list_all (conforms items) xs \<Longrightarrow> \<exists>v r. array_loop items xs acc rng = (Inr v, r)"
    and "fields_conform props kvs \<Longrightarrow> \<exists>v r. object_loop props kvs acc2 rng = (Inr v, r)"
    and "\<exists>v r. wildcard_loop kvs3 acc3 rng = (Inr v, r)"
proof (induction node data rng and items xs acc rng and props kvs acc2 rng and kvs3 acc3 rng
    rule: mutate_recursive_array_loop_object_loop_wildcard_loop.induct)
  case (1 sc data rng)
  from "1.prems" show ?case
    apply (subst (asm) conforms.simps)
    apply (subst mutate_recursive.simps)
    using "1.IH" mutate_string_safe [of data rng] mutate_integer_safe [of data rng]
      mutate_number_safe [of data rng] mutate_boolean_bool [of rng]
    apply (auto split: pyval.splits option.splits if_splits simp: fields_conform_def)
    done
next
  case (2 items mutated_array rng)
  show ?case by simp
next
  case (3 items item rest mutated_array rng)
  from "3.prems" have c: "conforms items item" and cr: "list_all (conforms items) rest" by simp_all
  from "3.IH"(1) [OF c] obtain v r where m: "mutate_recursive items item rng = (Inr v, r)" by blast
  from "3.IH"(2) [OF m [symmetric] refl cr] show ?case using m by simp
next
  case (4 props mutated_object rng)
  show ?case by simp
next
  case (5 props k v rest mutated_object rng)
  from "5.prems" obtain p where p: "props = PDict p"
    by (cases props) (simp_all add: fields_conform_def)
  from "5.prems" p have cv: "map_of p k = Some sub \<Longrightarrow> conforms sub v" for sub
    by (simp add: fields_conform_def)
  from "5.prems" p have cr: "fields_conform props rest"
    by (simp add: fields_conform_def)
  show ?case
  proof (cases "map_of p k")
    case None
    then have "py_contains props k = Inr False" using p by simp
    with "5.IH"(3) [OF _ refl cr] show ?thesis by simp
  next
    case (Some sub)
    then have pc: "py_contains props k = Inr True" and pg: "py_getitem props k = Inr sub"
      using p by simp_all
    from cv [OF Some] have "conforms sub v" .
    from "5.IH"(1) [OF pc refl pg this] obtain v' r where
      m: "mutate_recursive sub v rng = (Inr v', r)" by blast
    from "5.IH"(2) [OF pc refl pg m [symmetric] refl cr] show ?thesis using pc pg m by simp
  qed
next
  case (6 mutated_object rng)
  show ?case by simp
next
  case (7 k v rest mutated_object rng)
  have "conforms (PDict []) v" by (simp add: conforms.simps)
  from "7.IH"(1) [OF this] obtain v' r where
    m: "mutate_recursive (PDict []) v rng = (Inr v', r)" by blast
  from "7.IH"(2) [OF m [symmetric] refl] show ?case using m by simp
qed

section \<open>The loops as sequential maps\<close>

text \<open>
  The array loop computes \<open>mutate_elements\<close>, and the object loop computes
  \<open>mutate_fields\<close> on a dictionary, whose keys are distinct: each assignment to
  \<^verbatim>\<open>mutated_object\<close> then appends a new key.
\<close>

lemma array_loop_elements:
  "array_loop items xs acc rng =
     (case mutate_elements items xs rng of
        (Inl e, r) \<Rightarrow> (Inl e, r)
      | (Inr ys, r) \<Rightarrow> (Inr (PList (acc @ ys)), r))"
proof (induction xs arbitrary: acc rng)
  case Nil
  show ?case by simp
next
  case (Cons x xs)
  show ?case
  proof (cases "mutate_recursive items x rng")
    case (Pair res r1)
    show ?thesis
    proof (cases res)
      case (Inl e)
      then show ?thesis using Pair by (simp del: mutate_recursive.simps)
    next
      case (Inr y)
      then show ?thesis using Pair Cons.IH [of "acc @ [y]" r1]
        by (auto simp del: mutate_recursive.simps split: prod.splits sum.splits)
    qed
  qed
qed

lemma mutate_elements_length:
  "mutate_elements items xs rng = (Inr ys, r) \<Longrightarrow> length ys = length xs"
proof (induction xs arbitrary: ys rng)
  case Nil
  then show ?case by simp
next
  case (Cons x xs)
  from Cons.prems obtain y r1 ys' where
    t: "mutate_elements items xs r1 = (Inr ys', r)" and ys: "ys = y # ys'"
    by (auto simp del: mutate_recursive.simps split: prod.splits sum.splits)
  from Cons.IH [OF t] ys show ?case by simp
qed

lemma mutate_elements_nth:
  "mutate_elements items xs rng = (Inr ys, r) \<Longrightarrow> i < length xs \<Longrightarrow>
   \<exists>ri ri'. mutate_recursive items (xs ! i) ri = (Inr (ys ! i), ri')"
proof (induction xs arbitrary: ys rng i)
  case Nil
  then show ?case by simp
next
  case (Cons x xs)
  from Cons.prems(1) obtain y r1 ys' where
    y: "mutate_recursive items x rng = (Inr y, r1)"
    and t: "mutate_elements items xs r1 = (Inr ys', r)" and ys: "ys = y # ys'"
    by (auto simp del: mutate_recursive.simps split: prod.splits sum.splits)
  show ?case
  proof (cases i)
    case 0
    then show ?thesis unfolding ys using y by (auto simp del: mutate_recursive.simps)
  next
    case (Suc j)
    then have "j < length xs" using Cons.prems(2) by simp
    from Cons.IH [OF t this] show ?thesis unfolding Suc ys by (simp del: mutate_recursive.simps)
  qed
qed

lemma mutate_elements_total:
  "list_all (conforms items) xs \<Longrightarrow> \<exists>ys r. mutate_elements items xs rng = (Inr ys, r)"
proof (induction xs arbitrary: rng)
  case Nil
  then show ?case by simp
next
  case (Cons x xs)
  then have c: "conforms items x" and cr: "list_all (conforms items) xs" by simp_all
  from total_aux(1) [OF c] obtain y r1 where y: "mutate_recursive items x rng = (Inr y, r1)" by blast
  from Cons.IH [OF cr] obtain ys r where "mutate_elements items xs r1 = (Inr ys, r)" by blast
  then show ?case using y by (simp del: mutate_recursive.simps)
qed

lemma update_fresh: "k \<notin> fst ` set acc \<Longrightarrow> AList.update k v acc = acc @ [(k, v)]"
  by (induction acc) auto

lemma object_loop_fields:
  "distinct (map fst kvs) \<Longrightarrow> fst ` set acc \<inter> fst ` set kvs = {} \<Longrightarrow>
   object_loop (PDict p) kvs acc rng =
     (case mutate_fields p kvs rng of
        (Inl e, r) \<Rightarrow> (Inl e, r)
      | (Inr out, r) \<Rightarrow> (Inr (PDict (acc @ out)), r))"
proof (induction kvs arbitrary: acc rng)
  case Nil
  then show ?case by simp
next
  case (Cons kv kvs)
  obtain k v where kv: "kv = (k, v)" by (cases kv)
  from Cons.prems kv have fresh: "k \<notin> fst ` set acc" and d: "distinct (map fst kvs)"
    and nk: "k \<notin> fst ` set kvs" and disj: "fst ` set acc \<inter> fst ` set kvs = {}"
    by auto
  have step: "object_loop (PDict p) kvs (acc @ [(k, w)]) r1 =
     (case mutate_fields p kvs r1 of
        (Inl e, r) \<Rightarrow> (Inl e, r)
      | (Inr out, r) \<Rightarrow> (Inr (PDict (acc @ (k, w) # out)), r))" for w r1
  proof -
    have "fst ` set (acc @ [(k, w)]) \<inter> fst ` set kvs = {}" using nk disj by auto
    from Cons.IH [OF d this] show ?thesis by (simp split: prod.splits sum.splits)
  qed
  show ?case
  proof (cases "map_of p k")
    case None
    then show ?thesis
      unfolding kv
      by (simp del: mutate_recursive.simps add: update_fresh [OF fresh] step
          split: prod.splits sum.splits)
  next
    case (Some sub)
    show ?thesis
    proof (cases "mutate_recursive sub v rng")
      case (Pair res r1)
      then show ?thesis
        unfolding kv using Some
        by (cases res)
          (simp_all del: mutate_recursive.simps add: update_fresh [OF fresh] step
            split: prod.splits sum.splits)
    qed
  qed
qed

lemma mutate_fields_keys:
  "mutate_fields p kvs rng = (Inr out, r) \<Longrightarrow> map fst out = map fst kvs"
proof (induction kvs arbitrary: out rng)
  case Nil
  then show ?case by simp
next
  case (Cons kv kvs)
  obtain k v where kv: "kv = (k, v)" by (cases kv)
  from Cons.prems obtain v' r1 out' where
    tl: "mutate_fields p kvs r1 = (Inr out', r)" and out: "out = (k, v') # out'"
    unfolding kv by (auto simp del: mutate_recursive.simps split: prod.splits sum.splits)
  from Cons.IH [OF tl] show ?case unfolding kv out by simp
qed

lemma mutate_fields_nth:
  "mutate_fields p kvs rng = (Inr out, r) \<Longrightarrow> i < length kvs \<Longrightarrow>
   fst (out ! i) = fst (kvs ! i) \<and>
   (case map_of p (fst (kvs ! i)) of
      None \<Rightarrow> snd (out ! i) = snd (kvs ! i)
    | Some sub \<Rightarrow> \<exists>ri ri'. mutate_recursive sub (snd (kvs ! i)) ri = (Inr (snd (out ! i)), ri'))"
proof (induction kvs arbitrary: out rng i)
  case Nil
  then show ?case by simp
next
  case (Cons kv kvs)
  obtain k v where kv: "kv = (k, v)" by (cases kv)
  from Cons.prems(1) obtain v' r1 out' where
    hd: "(case map_of p k of Some sub \<Rightarrow> mutate_recursive sub v rng | None \<Rightarrow> (Inr v, rng))
          = (Inr v', r1)"
    and tl: "mutate_fields p kvs r1 = (Inr out', r)" and out: "out = (k, v') # out'"
    unfolding kv by (auto simp del: mutate_recursive.simps split: prod.splits sum.splits)
  show ?case
  proof (cases i)
    case 0
    show ?thesis
      unfolding 0 kv out using hd
      by (cases "map_of p k") (auto simp del: mutate_recursive.simps)
  next
    case (Suc j)
    then have j: "j < length kvs" using Cons.prems(2) by simp
    from Cons.IH [OF tl j] show ?thesis unfolding Suc kv out
      by (simp del: mutate_recursive.simps split: option.splits)
  qed
qed

lemma mutate_fields_undeclared:
  "mutate_fields p kvs rng = (Inr out, r) \<Longrightarrow> map_of p k = None \<Longrightarrow> map_of out k = map_of kvs k"
proof (induction kvs arbitrary: out rng)
  case Nil
  then show ?case by simp
next
  case (Cons kv kvs)
  obtain k' v where kv: "kv = (k', v)" by (cases kv)
  from Cons.prems(1) obtain v' r1 out' where
    hd: "(case map_of p k' of Some sub \<Rightarrow> mutate_recursive sub v rng | None \<Rightarrow> (Inr v, rng))
          = (Inr v', r1)"
    and tl: "mutate_fields p kvs r1 = (Inr out', r)" and out: "out = (k', v') # out'"
    unfolding kv by (auto simp del: mutate_recursive.simps split: prod.splits sum.splits)
  from Cons.IH [OF tl Cons.prems(2)] have ih: "map_of out' k = map_of kvs k" .
  show ?case
  proof (cases "k' = k")
    case True
    with hd Cons.prems(2) have "v' = v" by simp
    then show ?thesis unfolding kv out using True by simp
  next
    case False
    then show ?thesis unfolding kv out using ih by simp
  qed
qed

lemma mutate_fields_total:
  "fields_conform (PDict p) kvs \<Longrightarrow> \<exists>out r. mutate_fields p kvs rng = (Inr out, r)"
proof (induction kvs arbitrary: rng)
  case Nil
  then show ?case by simp
next
  case (Cons kv kvs)
  obtain k v where kv: "kv = (k, v)" by (cases kv)
  from Cons.prems kv have cr: "fields_conform (PDict p) kvs"
    and cv: "\<And>sub. map_of p k = Some sub \<Longrightarrow> conforms sub v"
    by (simp_all add: fields_conform_def)
  have "\<exists>v' r1. (case map_of p k of Some sub \<Rightarrow> mutate_recursive sub v rng | None \<Rightarrow> (Inr v, rng))
          = (Inr v', r1)"
  proof (cases "map_of p k")
    case None
    then show ?thesis by simp
  next
    case (Some sub)
    from total_aux(1) [OF cv [OF Some]] show ?thesis
      unfolding Some by (simp del: mutate_recursive.simps)
  qed
  then obtain v' r1 where hd: "(case map_of p k of Some sub \<Rightarrow> mutate_recursive sub v rng
      | None \<Rightarrow> (Inr v, rng)) = (Inr v', r1)" by blast
  from Cons.IH [OF cr] obtain out r where "mutate_fields p kvs r1 = (Inr out, r)" by blast
  then show ?case unfolding kv using hd by (simp del: mutate_recursive.simps)
qed

text \<open>The loop of \<^verbatim>\<open>mutate\<close>: one traversal per iteration, appended in order.\<close>

lemma mutate_loop_length:
  "mutate_loop self n acc rng = (Inr out, r) \<Longrightarrow> length out = length acc + n"
proof (induction n arbitrary: acc rng)
  case 0
  then show ?case by simp
next
  case (Suc n)
  from Suc.prems obtain v r1 where
    l: "mutate_loop self n (acc @ [v]) r1 = (Inr out, r)"
    by (auto simp del: mutate_recursive.simps split: prod.splits sum.splits)
  from Suc.IH [OF l] show ?case by simp
qed

lemma mutate_loop_total:
  "conforms (schema self) (sample self) \<Longrightarrow> \<exists>out r. mutate_loop self n acc rng = (Inr out, r)"
proof (induction n arbitrary: acc rng)
  case 0
  then show ?case by simp
next
  case (Suc n)
  from total_aux(1) [OF Suc.prems] obtain v r1 where
    v: "mutate_recursive (schema self) (sample self) rng = (Inr v, r1)" by blast
  from Suc.IH [OF Suc.prems] obtain out r where
    "mutate_loop self n (acc @ [v]) r1 = (Inr out, r)" by blast
  then show ?case using v by (simp del: mutate_recursive.simps)
qed

lemma mutate_loop_prefix:
  "mutate_loop self n acc rng = (Inr out, r) \<Longrightarrow> take (length acc) out = acc"
proof (induction n arbitrary: acc rng)
  case 0
  then show ?case by simp
next
  case (Suc n)
  from Suc.prems obtain v r1 where
    l: "mutate_loop self n (acc @ [v]) r1 = (Inr out, r)"
    by (auto simp del: mutate_recursive.simps split: prod.splits sum.splits)
  from Suc.IH [OF l] have "take (Suc (length acc)) out = acc @ [v]" by simp
  then have "take (length acc) (take (Suc (length acc)) out) = take (length acc) (acc @ [v])"
    by simp
  then show ?case by simp
qed

lemma mutate_loop_elements:
  "mutate_loop self n acc rng = (Inr out, r) \<Longrightarrow> length acc \<le> i \<Longrightarrow> i < length out \<Longrightarrow>
   \<exists>ri ri'. mutate_recursive (schema self) (sample self) ri = (Inr (out ! i), ri')"
proof (induction n arbitrary: acc rng)
  case 0
  then show ?case by simp
next
  case (Suc n)
  from Suc.prems(1) obtain v r1 where
    v: "mutate_recursive (schema self) (sample self) rng = (Inr v, r1)"
    and l: "mutate_loop self n (acc @ [v]) r1 = (Inr out, r)"
    by (auto simp del: mutate_recursive.simps split: prod.splits sum.splits)
  show ?case
  proof (cases "i = length acc")
    case True
    from mutate_loop_prefix [OF l] have "take (Suc (length acc)) out = acc @ [v]" by simp
    then have "take (Suc (length acc)) out ! i = (acc @ [v]) ! i" by simp
    then have "out ! i = v" using True by simp
    then show ?thesis using v by blast
  next
    case False
    then have "length (acc @ [v]) \<le> i" using Suc.prems(2) by simp
    from Suc.IH [OF l this Suc.prems(3)] show ?thesis .
  qed
qed

section \<open>The claims\<close>

text \<open>
  Claim C1, as stated: for every well-formed pair of schema and sample,
  \<^verbatim>\<open>_mutate_recursive\<close> returns a value without raising. It does not: under the
  schema \<^verbatim>\<open>{"type": "string"}\<close> the integer sample 5 reaches
  \<^verbatim>\<open>_mutate_string\<close>, and when the draw picks the second strategy,
  \<^verbatim>\<open>s.upper()\<close>, the call raises \<^verbatim>\<open>AttributeError\<close>, which nothing catches.
\<close>

theorem string_schema_integer_sample_raises:
  "mutate_recursive (PDict [(''type'', PStr ''string'')]) (PInt 5) [1] = (Inl AttributeError, [])"
  by (simp add: mutate_string_def choice_def string_strategies_def)

text \<open>
  Claim C1, amended: \<^verbatim>\<open>_mutate_recursive\<close> returns a value without raising, on
  every random draw, for every conforming pair, that is whenever each sample value met by
  a schema node of type string, integer or number is of a type the strategies of that node
  accept and \<^verbatim>\<open>properties\<close> is a mapping where a field is looked up. Mismatches of
  container shape never raise: an array node with a sample that is not a list gives the
  empty list, an object node with a sample that is not a mapping gives the empty mapping,
  and a schema without \<^verbatim>\<open>type\<close> gives back a sample that is not a mapping.
\<close>

theorem mutate_recursive_total_on_conforming:
  "(conforms node data \<longrightarrow> (\<exists>v r. mutate_recursive node data rng = (Inr v, r)))
   \<and> (map_of sch ''type'' = Some (PStr ''array'') \<and> \<not> is_list data \<longrightarrow>
        mutate_recursive (PDict sch) data rng = (Inr (PList []), rng))
   \<and> (map_of sch ''type'' = Some (PStr ''object'') \<and> \<not> is_dict data \<longrightarrow>
        mutate_recursive (PDict sch) data rng = (Inr (PDict []), rng))
   \<and> (map_of sch ''type'' = None \<and> \<not> is_dict data \<longrightarrow>
        mutate_recursive (PDict sch) data rng = (Inr data, rng))"
proof (intro conjI impI)
  assume "conforms node data"
  then show "\<exists>v r. mutate_recursive node data rng = (Inr v, r)" by (rule total_aux(1))
next
  assume "map_of sch ''type'' = Some (PStr ''array'') \<and> \<not> is_list data"
  then show "mutate_recursive (PDict sch) data rng = (Inr (PList []), rng)"
    by (cases data) (simp_all split: option.splits)
next
  assume "map_of sch ''type'' = Some (PStr ''object'') \<and> \<not> is_dict data"
  then show "mutate_recursive (PDict sch) data rng = (Inr (PDict []), rng)"
    by (cases data) simp_all
next
  assume "map_of sch ''type'' = None \<and> \<not> is_dict data"
  then show "mutate_recursive (PDict sch) data rng = (Inr data, rng)"
    by (cases data) simp_all
qed

theorem mutate_recursive_total_on_conforming_witness:
  "conforms
     (PDict [(''type'', PStr ''object''),
             (''properties'', PDict [(''name'', PDict [(''type'', PStr ''string'')]),
                                     (''age'', PDict [(''type'', PStr ''integer'')]),
                                     (''tags'', PDict [(''type'', PStr ''array''),
                                                       (''items'', PDict [(''type'', PStr ''string'')])])])])
     (PDict [(''name'', PStr ''x''), (''age'', PInt 42), (''tags'', PList [PStr ''a'']),
             (''note'', PNone)])
   \<and> (\<exists>v r. mutate_recursive
         (PDict [(''type'', PStr ''object''),
                 (''properties'', PDict [(''name'', PDict [(''type'', PStr ''string'')]),
                                         (''age'', PDict [(''type'', PStr ''integer'')]),
                                         (''tags'', PDict [(''type'', PStr ''array''),
                                                           (''items'', PDict [(''type'', PStr ''string'')])])])])
         (PDict [(''name'', PStr ''x''), (''age'', PInt 42), (''tags'', PList [PStr ''a'']),
                 (''note'', PNone)])
         [3, 1, 4] = (Inr v, r))
   \<and> mutate_recursive (PDict [(''type'', PStr ''array''), (''items'', PDict [])]) (PStr ''x'') [2]
       = (Inr (PList []), [2])
   \<and> mutate_recursive (PDict [(''type'', PStr ''object'')]) (PInt 5) [2] = (Inr (PDict []), [2])
   \<and> mutate_recursive (PDict []) (PInt 5) [2] = (Inr (PInt 5), [2])"
proof -
  let ?N = "PDict [(''type'', PStr ''object''),
             (''properties'', PDict [(''name'', PDict [(''type'', PStr ''string'')]),
                                     (''age'', PDict [(''type'', PStr ''integer'')]),
                                     (''tags'', PDict [(''type'', PStr ''array''),
                                                       (''items'', PDict [(''type'', PStr ''string'')])])])]"
  let ?D = "PDict [(''name'', PStr ''x''), (''age'', PInt 42), (''tags'', PList [PStr ''a'']),
             (''note'', PNone)]"
  have c: "conforms ?N ?D" by (simp add: conforms.simps)
  note t = mutate_recursive_total_on_conforming
  from t [of ?N ?D "[3, 1, 4]"] c
  have a: "\<exists>v r. mutate_recursive ?N ?D [3, 1, 4] = (Inr v, r)" by blast
  from t [of _ "PStr ''x''" "[2]" "[(''type'', PStr ''array''), (''items'', PDict [])]"]
  have b: "mutate_recursive (PDict [(''type'', PStr ''array''), (''items'', PDict [])]) (PStr ''x'') [2]
       = (Inr (PList []), [2])" by simp
  from t [of _ "PInt 5" "[2]" "[(''type'', PStr ''object'')]"]
  have d: "mutate_recursive (PDict [(''type'', PStr ''object'')]) (PInt 5) [2] = (Inr (PDict []), [2])"
    by simp
  from t [of _ "PInt 5" "[2]" "[]"]
  have e: "mutate_recursive (PDict []) (PInt 5) [2] = (Inr (PInt 5), [2])" by simp
  from c a b d e show ?thesis by (intro conjI)
qed

text \<open>
  Claim C6: for every schema node with type \<^verbatim>\<open>array\<close> and no \<^verbatim>\<open>items\<close> key, and
  for every sample value, list or not, \<^verbatim>\<open>_mutate_recursive\<close> returns the empty list
  (and draws nothing).
\<close>

theorem array_without_items_yields_empty_list:
  "map_of sch ''type'' = Some (PStr ''array'') \<Longrightarrow> map_of sch ''items'' = None \<Longrightarrow>
   mutate_recursive (PDict sch) data rng = (Inr (PList []), rng)"
  by simp

theorem array_without_items_yields_empty_list_witness:
  "map_of [(''type'', PStr ''array'')] ''type'' = Some (PStr ''array'')
   \<and> map_of [(''type'', PStr ''array'')] ''items'' = None
   \<and> mutate_recursive (PDict [(''type'', PStr ''array'')]) (PList [PInt 1, PStr ''x'']) [5, 6]
       = (Inr (PList []), [5, 6])
   \<and> mutate_recursive (PDict [(''type'', PStr ''array'')]) (PStr ''x'') [5, 6]
       = (Inr (PList []), [5, 6])"
proof -
  have h1: "map_of [(''type'', PStr ''array'')] ''type'' = Some (PStr ''array'')" by simp
  have h2: "map_of [(''type'', PStr ''array'')] ''items'' = None" by simp
  note t = array_without_items_yields_empty_list [OF h1 h2]
  from h1 h2 t [of "PList [PInt 1, PStr ''x'']" "[5, 6]"] t [of "PStr ''x''" "[5, 6]"]
  show ?thesis by (intro conjI)
qed

text \<open>
  Claim C7: for every schema node whose \<^verbatim>\<open>type\<close> value is not one of string,
  integer, number, boolean, null, array, object, and for every sample value,
  \<^verbatim>\<open>_mutate_recursive\<close> returns the sample value unchanged; the warning it logs is
  not a failure.
\<close>

theorem unsupported_type_passes_through:
  "map_of sch ''type'' = Some t \<Longrightarrow>
   t \<notin> {PStr ''string'', PStr ''integer'', PStr ''number'', PStr ''boolean'', PStr ''null'',
         PStr ''array'', PStr ''object''} \<Longrightarrow>
   mutate_recursive (PDict sch) data rng = (Inr data, rng)"
  by simp

theorem unsupported_type_passes_through_witness:
  "map_of [(''type'', PStr ''date'')] ''type'' = Some (PStr ''date'')
   \<and> PStr ''date'' \<notin> {PStr ''string'', PStr ''integer'', PStr ''number'', PStr ''boolean'',
         PStr ''null'', PStr ''array'', PStr ''object''}
   \<and> mutate_recursive (PDict [(''type'', PStr ''date'')]) (PDict [(''a'', PInt 1)]) [7]
       = (Inr (PDict [(''a'', PInt 1)]), [7])"
proof -
  have h1: "map_of [(''type'', PStr ''date'')] ''type'' = Some (PStr ''date'')" by simp
  have h2: "PStr ''date'' \<notin> {PStr ''string'', PStr ''integer'', PStr ''number'', PStr ''boolean'',
         PStr ''null'', PStr ''array'', PStr ''object''}" by simp
  note t = unsupported_type_passes_through [OF h1 h2]
  from h1 h2 t [of "PDict [(''a'', PInt 1)]" "[7]"] show ?thesis by (intro conjI)
qed


text \<open>
  Claim C9: for every schema node with type \<^verbatim>\<open>boolean\<close> the result is a boolean
  and does not depend on the sample: two sample values traversed with the same randomness
  give the same result. (\<^verbatim>\<open>_mutate_boolean\<close> is not even passed the sample.)
\<close>

theorem boolean_branch_ignores_sample:
  "map_of sch ''type'' = Some (PStr ''boolean'') \<Longrightarrow>
   mutate_recursive (PDict sch) d1 rng = mutate_recursive (PDict sch) d2 rng
   \<and> (\<exists>b r. mutate_recursive (PDict sch) d1 rng = (Inr (PBool b), r))"
  using mutate_boolean_bool [of rng] by simp

theorem boolean_branch_ignores_sample_witness:
  "map_of [(''type'', PStr ''boolean'')] ''type'' = Some (PStr ''boolean'')
   \<and> mutate_recursive (PDict [(''type'', PStr ''boolean'')]) (PBool True) [1]
       = mutate_recursive (PDict [(''type'', PStr ''boolean'')]) (PStr ''x'') [1]
   \<and> (\<exists>b r. mutate_recursive (PDict [(''type'', PStr ''boolean'')]) (PBool True) [1]
         = (Inr (PBool b), r))"
proof -
  have h: "map_of [(''type'', PStr ''boolean'')] ''type'' = Some (PStr ''boolean'')" by simp
  note t = boolean_branch_ignores_sample [OF h, of "PBool True" "[1]" "PStr ''x''"]
  from h t [THEN conjunct1] t [THEN conjunct2] show ?thesis by (intro conjI)
qed

text \<open>
  Claim C10: on an input that is a string, each of the eight string strategies returns a
  string, on every random draw; so \<^verbatim>\<open>_mutate_string\<close> returns a string, and the
  string branch of \<^verbatim>\<open>_mutate_recursive\<close> maps a string sample to a string.
\<close>

theorem string_mutation_returns_string:
  "length string_strategies = 8
   \<and> (\<forall>strategy \<in> set string_strategies. \<exists>t r. strategy (PStr s) rng = (Inr (PStr t), r))
   \<and> (\<exists>t r. mutate_string (PStr s) rng = (Inr (PStr t), r))
   \<and> (map_of sch ''type'' = Some (PStr ''string'') \<longrightarrow>
        (\<exists>t r. mutate_recursive (PDict sch) (PStr s) rng = (Inr (PStr t), r)))"
proof (intro conjI impI)
  show "length string_strategies = 8" by (simp add: string_strategies_def)
  show "\<forall>strategy \<in> set string_strategies. \<exists>t r. strategy (PStr s) rng = (Inr (PStr t), r)"
    by (rule string_strategies_closed)
  show "\<exists>t r. mutate_string (PStr s) rng = (Inr (PStr t), r)" by (rule mutate_string_closed)
  assume "map_of sch ''type'' = Some (PStr ''string'')"
  then show "\<exists>t r. mutate_recursive (PDict sch) (PStr s) rng = (Inr (PStr t), r)"
    using mutate_string_closed [of s rng] by simp
qed

theorem string_mutation_returns_string_witness:
  "string_strategies ! 3 \<in> set string_strategies
   \<and> (\<exists>t r. (string_strategies ! 3) (PStr ''ab'') [4] = (Inr (PStr t), r))
   \<and> (\<exists>t r. mutate_string (PStr ''ab'') [3] = (Inr (PStr t), r))
   \<and> map_of [(''type'', PStr ''string'')] ''type'' = Some (PStr ''string'')
   \<and> (\<exists>t r. mutate_recursive (PDict [(''type'', PStr ''string'')]) (PStr ''ab'') [3]
         = (Inr (PStr t), r))"
proof -
  note t = string_mutation_returns_string
  have m: "string_strategies ! 3 \<in> set string_strategies"
    by (rule nth_mem) (simp add: string_strategies_def)
  from t [of "''ab''" "[4]"] m
  have a: "\<exists>t r. (string_strategies ! 3) (PStr ''ab'') [4] = (Inr (PStr t), r)" by blast
  from t [of "''ab''" "[3]"]
  have b: "\<exists>t r. mutate_string (PStr ''ab'') [3] = (Inr (PStr t), r)" by blast
  have h: "map_of [(''type'', PStr ''string'')] ''type'' = Some (PStr ''string'')" by simp
  from t [of "''ab''" "[3]" "[(''type'', PStr ''string'')]"] h
  have c: "\<exists>t r. mutate_recursive (PDict [(''type'', PStr ''string'')]) (PStr ''ab'') [3]
         = (Inr (PStr t), r)" by blast
  from m a b h c show ?thesis by (intro conjI)
qed

text \<open>
  Claim C8 says that \<^verbatim>\<open>_mutate_integer\<close> and \<^verbatim>\<open>_mutate_number\<close> never raise
  on numeric input. The divisors are indeed never zero (\<open>randint_range\<close>,
  \<open>uniform_range\<close>), but \<^verbatim>\<open>_mutate_number\<close> converts an integer sample to a float
  before it adds, subtracts, multiplies or divides, and the conversion of an integer
  beyond the float range raises \<^verbatim>\<open>OverflowError\<close>. \<^verbatim>\<open>_mutate_number\<close> catches
  \<^verbatim>\<open>ZeroDivisionError\<close> only (\<^verbatim>\<open>_mutate_integer\<close> is the one that catches
  \<^verbatim>\<open>OverflowError\<close>), so the exception escapes: here for the integer \<open>10\<^sup>4\<^sup>0\<^sup>0\<close>
  under each of the four arithmetic strategies.
\<close>

theorem number_schema_huge_integer_raises_overflow:
  "mutate_recursive (PDict [(''type'', PStr ''number'')]) (PInt (10 ^ 400)) [0, 0]
     = (Inl OverflowError, [])
   \<and> mutate_number (PInt (10 ^ 400)) [0, 0] = (Inl OverflowError, [])
   \<and> mutate_number (PInt (10 ^ 400)) [1, 0] = (Inl OverflowError, [])
   \<and> mutate_number (PInt (10 ^ 400)) [2, 0] = (Inl OverflowError, [])
   \<and> mutate_number (PInt (10 ^ 400)) [3, 0, 0] = (Inl OverflowError, [])"
  by (simp add: mutate_number_def choice_def number_strategies_def uniform_def random_unit_def
      py_add_float_def py_sub_float_def py_mul_float_def py_truediv_float_def float_of_int_def)


text \<open>
  Claim C4, as stated: for every array node with an item schema and every list sample,
  \<^verbatim>\<open>_mutate_recursive\<close> returns a list of the same length. It need not return: the
  mutation of an element can raise, and the exception leaves the loop. Here the item
  schema is \<^verbatim>\<open>{"type": "string"}\<close>, the sample is \<^verbatim>\<open>[5]\<close> and the draw picks
  \<^verbatim>\<open>s.upper()\<close>.
\<close>

theorem array_of_strings_integer_element_raises:
  "mutate_recursive
     (PDict [(''type'', PStr ''array''), (''items'', PDict [(''type'', PStr ''string'')])])
     (PList [PInt 5]) [1] = (Inl AttributeError, [])"
  by (simp add: mutate_string_def choice_def string_strategies_def)

text \<open>
  Claim C4, amended: for every array node with an item schema and every list sample,
  \<^verbatim>\<open>_mutate_recursive\<close> mutates the elements from left to right under the item
  schema, threading the random source; it raises what the first failing element raises,
  and otherwise returns a list of the same length whose element \<open>i\<close> is a mutation of
  element \<open>i\<close> of the sample under the item schema. It does return when every element
  conforms to the item schema.
\<close>

theorem array_with_items_maps_elements:
  "map_of sch ''type'' = Some (PStr ''array'') \<Longrightarrow> map_of sch ''items'' = Some items \<Longrightarrow>
   mutate_recursive (PDict sch) (PList xs) rng =
     (case mutate_elements items xs rng of
        (Inl e, r) \<Rightarrow> (Inl e, r)
      | (Inr ys, r) \<Rightarrow> (Inr (PList ys), r))
   \<and> (\<forall>out r. mutate_recursive (PDict sch) (PList xs) rng = (Inr out, r) \<longrightarrow>
         (\<exists>ys. out = PList ys \<and> length ys = length xs
            \<and> (\<forall>i < length xs. \<exists>ri ri'.
                  mutate_recursive items (xs ! i) ri = (Inr (ys ! i), ri'))))
   \<and> (list_all (conforms items) xs \<longrightarrow>
         (\<exists>ys r. mutate_recursive (PDict sch) (PList xs) rng = (Inr (PList ys), r)
            \<and> length ys = length xs))"
proof -
  assume t: "map_of sch ''type'' = Some (PStr ''array'')" and i: "map_of sch ''items'' = Some items"
  have eq: "mutate_recursive (PDict sch) (PList xs) rng =
     (case mutate_elements items xs rng of
        (Inl e, r) \<Rightarrow> (Inl e, r)
      | (Inr ys, r) \<Rightarrow> (Inr (PList ys), r))"
    using t i by (simp add: array_loop_elements split: prod.splits sum.splits)
  have ret: "\<exists>ys. out = PList ys \<and> length ys = length xs
            \<and> (\<forall>i < length xs. \<exists>ri ri'.
                  mutate_recursive items (xs ! i) ri = (Inr (ys ! i), ri'))"
    if "mutate_recursive (PDict sch) (PList xs) rng = (Inr out, r)" for out r
  proof -
    from that eq obtain ys where m: "mutate_elements items xs rng = (Inr ys, r)"
      and out: "out = PList ys"
      by (cases "mutate_elements items xs rng") (auto split: sum.splits)
    from mutate_elements_length [OF m] mutate_elements_nth [OF m] out show ?thesis by blast
  qed
  have tot: "\<exists>ys r. mutate_recursive (PDict sch) (PList xs) rng = (Inr (PList ys), r)
            \<and> length ys = length xs" if "list_all (conforms items) xs"
  proof -
    from mutate_elements_total [OF that] obtain ys r where
      m: "mutate_elements items xs rng = (Inr ys, r)" by blast
    from mutate_elements_length [OF m] m eq show ?thesis by simp
  qed
  from eq ret tot show ?thesis by blast
qed

theorem array_with_items_maps_elements_witness:
  "map_of [(''type'', PStr ''array''), (''items'', PDict [(''type'', PStr ''integer'')])] ''type''
     = Some (PStr ''array'')
   \<and> map_of [(''type'', PStr ''array''), (''items'', PDict [(''type'', PStr ''integer'')])] ''items''
     = Some (PDict [(''type'', PStr ''integer'')])
   \<and> list_all (conforms (PDict [(''type'', PStr ''integer'')])) [PInt 1, PInt 2, PInt 3]
   \<and> (\<exists>ys r. mutate_recursive
          (PDict [(''type'', PStr ''array''), (''items'', PDict [(''type'', PStr ''integer'')])])
          (PList [PInt 1, PInt 2, PInt 3]) [0, 4, 6, 2, 1] = (Inr (PList ys), r)
        \<and> length ys = length [PInt 1, PInt 2, PInt 3])"
proof -
  let ?sch = "[(''type'', PStr ''array''), (''items'', PDict [(''type'', PStr ''integer'')])]"
  have h1: "map_of ?sch ''type'' = Some (PStr ''array'')" by simp
  have h2: "map_of ?sch ''items'' = Some (PDict [(''type'', PStr ''integer'')])" by simp
  have h3: "list_all (conforms (PDict [(''type'', PStr ''integer'')])) [PInt 1, PInt 2, PInt 3]"
    by (simp add: conforms.simps)
  note t = array_with_items_maps_elements [OF h1 h2, of "[PInt 1, PInt 2, PInt 3]" "[0, 4, 6, 2, 1]"]
  from t h3 have c: "\<exists>ys r. mutate_recursive (PDict ?sch) (PList [PInt 1, PInt 2, PInt 3])
      [0, 4, 6, 2, 1] = (Inr (PList ys), r) \<and> length ys = length [PInt 1, PInt 2, PInt 3]"
    by (elim conjE impE) assumption
  from h1 h2 h3 c show ?thesis by (intro conjI)
qed


end
